theory Spec2Isabelle
  imports Complex_Main
begin

section \<open>Chunking of the identifier list (DealsGG.tsx)\<close>

text \<open>
  The component \<^verbatim>\<open>DealsGG\<close> receives \<^verbatim>\<open>appids: number[]\<close> and cuts it into
  batches:
  \<^verbatim>\<open>
    const BATCH_SIZE = 50;
    const chunks = useMemo(() => {
        const results = [];
        for (let i = 0; i < appids.length; i += BATCH_SIZE) {
            results.push(appids.slice(i, i + BATCH_SIZE));
        }
        return results;
    }, [appids]);
  \<close>
  Application ids are integers. \<^verbatim>\<open>slice(start, end)\<close> with non-negative indices
  returns the elements at positions \<open>start \<le> p < min end length\<close>; past the end of
  the array it returns fewer elements (or none) and never raises.
\<close>

definition BATCH_SIZE :: nat where
  "BATCH_SIZE = 50"

definition slice :: "'a list \<Rightarrow> nat \<Rightarrow> nat \<Rightarrow> 'a list" where
  "slice xs start end = take (end - start) (drop start xs)"

function chunks_loop :: "int list \<Rightarrow> nat \<Rightarrow> int list list \<Rightarrow> int list list" where
  "chunks_loop appids i results =
     (if i < length appids
      then chunks_loop appids (i + BATCH_SIZE) (results @ [slice appids i (i + BATCH_SIZE)])
      else results)"
  by pat_completeness auto
termination
  by (relation "measure (\<lambda>(appids, i, results). length appids - i)")
     (auto simp: BATCH_SIZE_def)

declare chunks_loop.simps [simp del]

definition chunks :: "int list \<Rightarrow> int list list" where
  "chunks appids = chunks_loop appids 0 []"

section \<open>Deal records (types/steam.ts)\<close>

text \<open>
  \<^verbatim>\<open>DealsGGPrices\<close> and \<^verbatim>\<open>DealsGGItem\<close> as the interfaces declare them. The
  component never computes with a price; prices are kept as rationals.
\<close>

record DealsGGPrices =
  retail_price :: rat
  retail_price_low :: rat
  keyshop_price :: rat
  keyshop_price_low :: rat

record DealsGGItem =
  appid :: int
  name :: string
  url :: string
  image_url :: string
  prices :: DealsGGPrices
  currency :: string

section \<open>The chunk lookup \<^verbatim>\<open>fetchDealsGG\<close> (api.ts)\<close>

text \<open>
  \<^verbatim>\<open>
    export const fetchDealsGG = async(appids: number[]): Promise<DealsGGItem[]> => {
        try {
            const res = await axios.post('/api/dealsgg/games', { appids });
            return res.data;
        } catch (error) {
            if (axios.isAxiosError(error)) {
                console.log('Status:', error.response?.status);
                console.log('Message:', error.response?.data.detail);
            }
            throw error;
        }
    }
  \<close>
  The body of an error response is typed \<^verbatim>\<open>any\<close>: it is whatever JSON the server
  sent, \<^verbatim>\<open>null\<close> included. A rejected promise is the \<open>Inl\<close> branch of a sum.
\<close>

datatype json =
  JUndefined
  | JNull
  | JBool bool
  | JNum int
  | JStr string
  | JArr "json list"
  | JObj "(string \<times> json) list"

record 'd axios_response =
  response_status :: int
  response_data :: 'd

datatype thrown =
  AxiosError string "json axios_response option"
  | TypeError string
  | OtherError string

fun message :: "thrown \<Rightarrow> string" where
  "message (AxiosError m r) = m"
| "message (TypeError m) = m"
| "message (OtherError m) = m"

fun isAxiosError :: "thrown \<Rightarrow> bool" where
  "isAxiosError (AxiosError m r) = True"
| "isAxiosError (TypeError m) = False"
| "isAxiosError (OtherError m) = False"

fun response :: "thrown \<Rightarrow> json axios_response option" where
  "response (AxiosError m r) = r"
| "response (TypeError m) = None"
| "response (OtherError m) = None"

text \<open>
  Reading the property \<^verbatim>\<open>detail\<close> of a value: \<^verbatim>\<open>undefined\<close> and \<^verbatim>\<open>null\<close> have no
  properties and the read raises a \<^verbatim>\<open>TypeError\<close>; an object yields the member or
  \<^verbatim>\<open>undefined\<close>; every other value yields \<^verbatim>\<open>undefined\<close>.
\<close>

fun get_detail :: "json \<Rightarrow> thrown + json" where
  "get_detail JUndefined = Inl (TypeError ''Cannot read properties of undefined (reading detail)'')"
| "get_detail JNull = Inl (TypeError ''Cannot read properties of null (reading detail)'')"
| "get_detail (JObj members) =
     Inr (case map_of members ''detail'' of None \<Rightarrow> JUndefined | Some v \<Rightarrow> v)"
| "get_detail v = Inr JUndefined"

text \<open>
  The \<^verbatim>\<open>catch\<close> block: the lines written to the console and the value thrown.
  \<^verbatim>\<open>error.response?.status\<close> and \<^verbatim>\<open>error.response?.data.detail\<close> are
  \<^verbatim>\<open>undefined\<close> when there is no response; with a response, \<^verbatim>\<open>.data.detail\<close> is
  an ordinary property read of \<^verbatim>\<open>data\<close>. The arguments of the second
  \<^verbatim>\<open>console.log\<close> are evaluated before the call, so a raise there skips that line
  and the final \<^verbatim>\<open>throw error\<close>.
\<close>

definition catch_block :: "thrown \<Rightarrow> (string \<times> json) list \<times> (thrown + 'a)" where
  "catch_block error =
     (if isAxiosError error then
        (let status_line = (''Status:'',
               (case response error of None \<Rightarrow> JUndefined
                | Some r \<Rightarrow> JNum (response_status r)))
         in case (case response error of None \<Rightarrow> Inr JUndefined
                  | Some r \<Rightarrow> get_detail (response_data r)) of
              Inl type_error \<Rightarrow> ([status_line], Inl type_error)
            | Inr detail \<Rightarrow> ([status_line, (''Message:'', detail)], Inl error))
      else ([], Inl error))"

text \<open>
  \<^verbatim>\<open>axios.post\<close> is the network: a parameter \<open>post\<close> that takes the path, the
  posted identifier list and the state of the outside world, and returns the outcome with
  the new state. The result of \<^verbatim>\<open>fetchDealsGG\<close> is the console output, the settled
  promise and the world after the call.
\<close>

definition fetchDealsGG ::
  "(string \<Rightarrow> int list \<Rightarrow> 'w \<Rightarrow> (thrown + DealsGGItem list axios_response) \<times> 'w)
   \<Rightarrow> int list \<Rightarrow> 'w \<Rightarrow> ((string \<times> json) list \<times> (thrown + DealsGGItem list)) \<times> 'w" where
  "fetchDealsGG post appids w =
     (case post ''/api/dealsgg/games'' appids w of
        (Inr res, w') \<Rightarrow> (([], Inr (response_data res)), w')
      | (Inl error, w') \<Rightarrow> (catch_block error, w'))"

section \<open>The component \<^verbatim>\<open>DealsGG\<close> (DealsGG.tsx)\<close>

text \<open>
  One query per chunk:
  \<^verbatim>\<open>
    const queries = useQueries({
        queries: chunks.map((chunk, index) => ({
            queryKey: ['appids', chunk],
            queryFn: () => fetchDealsGG(chunk),
            staleTime: 5 * 60 * 1000, // Cache for 5 minutes
        }))
    })
  \<close>
  The closure \<^verbatim>\<open>queryFn\<close> is represented by the identifier list it passes to
  \<^verbatim>\<open>fetchDealsGG\<close>.
\<close>

record query_options =
  queryKey :: "string \<times> int list"
  queryFn_appids :: "int list"
  staleTime :: nat

definition queries_options :: "int list list \<Rightarrow> query_options list" where
  "queries_options cs =
     map (\<lambda>chunk. \<lparr>queryKey = (''appids'', chunk), queryFn_appids = chunk,
                   staleTime = 5 * 60 * 1000\<rparr>) cs"

text \<open>
  What the component reads of each query result. \<^verbatim>\<open>error\<close> is \<^verbatim>\<open>null\<close> or the
  value the lookup threw; \<^verbatim>\<open>data\<close> is \<^verbatim>\<open>undefined\<close> or the array the lookup
  returned (an array is truthy, also when empty).
\<close>

record query_result =
  isLoading :: bool
  error :: "thrown option"
  data :: "DealsGGItem list option"

text \<open>
  \<^verbatim>\<open>
    const isLoading = queries.some(q => q.isLoading)
    const errors = queries.filter(q => q.error).map(q => q.error)
    const allData = queries
        .filter(q => q.data)
        .flatMap(q => q.data!)
  \<close>
\<close>

definition DealsGG_isLoading :: "query_result list \<Rightarrow> bool" where
  "DealsGG_isLoading queries = list_ex isLoading queries"

definition DealsGG_errors :: "query_result list \<Rightarrow> thrown option list" where
  "DealsGG_errors queries = map error (filter (\<lambda>q. error q \<noteq> None) queries)"

definition DealsGG_allData :: "query_result list \<Rightarrow> DealsGGItem list" where
  "DealsGG_allData queries =
     concat (map (\<lambda>q. the (data q)) (filter (\<lambda>q. data q \<noteq> None) queries))"

definition DealsGG_loadedCount :: "query_result list \<Rightarrow> nat" where
  "DealsGG_loadedCount queries = length (filter (\<lambda>q. data q \<noteq> None) queries)"

text \<open>
  What the component returns: the loading line with its two counters, the error line with
  \<^verbatim>\<open>errors[0]?.message\<close>, or one \<^verbatim>\<open>GameCard\<close> per deal record.
  \<^verbatim>\<open>
    if (isLoading) {
        const loadedCount = queries.filter(q => q.data).length
        return <div>Loading deals... {loadedCount}/{chunks.length} batches loaded</div>
    }
    if (errors.length > 0) {
        return <div>Error loading some deals: {errors[0]?.message}</div>
    }
    return (
        <div>{allData?.map(deal => <GameCard key={deal.appid} game={deal}/>)}</div>
    )
  \<close>
  The hook \<^verbatim>\<open>useQueries\<close> is a parameter: it maps the list of query options to the
  current list of query results.
\<close>

datatype view =
  Loading nat nat
  | ErrorView "string option"
  | Cards "DealsGGItem list"

definition queries ::
  "(query_options list \<Rightarrow> query_result list) \<Rightarrow> int list \<Rightarrow> query_result list" where
  "queries useQueries appids = useQueries (queries_options (chunks appids))"

definition DealsGG :: "(query_options list \<Rightarrow> query_result list) \<Rightarrow> int list \<Rightarrow> view" where
  "DealsGG useQueries appids =
     (let qs = queries useQueries appids
      in if DealsGG_isLoading qs
         then Loading (DealsGG_loadedCount qs) (length (chunks appids))
         else if length (DealsGG_errors qs) > 0
         then ErrorView (case DealsGG_errors qs of [] \<Rightarrow> None
                         | e # _ \<Rightarrow> map_option message e)
         else Cards (DealsGG_allData qs))"

text \<open>The deal records that a view puts on the screen.\<close>

fun deals_shown :: "view \<Rightarrow> DealsGGItem list" where
  "deals_shown (Loading loadedCount n) = []"
| "deals_shown (ErrorView m) = []"
| "deals_shown (Cards deals) = deals"

text \<open>
  The three per-chunk states of the aggregate, read off a query result: a chunk is pending
  while it loads, has succeeded when it carries data and no error, and has failed when it
  carries an error.
\<close>

definition pending :: "query_result \<Rightarrow> bool" where
  "pending q = isLoading q"

definition succeeded :: "query_result \<Rightarrow> bool" where
  "succeeded q = (\<not> isLoading q \<and> error q = None \<and> data q \<noteq> None)"

definition failed :: "query_result \<Rightarrow> bool" where
  "failed q = (\<not> isLoading q \<and> error q \<noteq> None)"

text \<open>
  The progress count as the spec words it, for comparison with \<open>DealsGG_loadedCount\<close>:
  the chunks that have produced a successful result, failed chunks not counted.
\<close>

definition spec_loadedCount :: "query_result list \<Rightarrow> nat" where
  "spec_loadedCount qs = length (filter (\<lambda>q. data q \<noteq> None \<and> \<not> failed q) qs)"

section \<open>The fetch-caching layer\<close>

text \<open>
  Modelled from the spec: the fetch-caching layer behind \<^verbatim>\<open>useQueries\<close> (the query
  cache of the fetch library), which is not among the source files. The spec describes it
  as a cache from key to status, value and timestamp; each lookup is "keyed by the chunk's
  contents (so identical chunk contents across re-renders reuse an in-flight or cached
  result rather than re-fetching)", and "results are cached for a bounded time window
  (5 minutes) before being considered stale and eligible for re-fetch". Times are in
  milliseconds, as \<^verbatim>\<open>staleTime\<close> is.
\<close>

datatype cache_status = In_flight | Cached

record cache_entry =
  entry_status :: cache_status
  entry_value :: "DealsGGItem list"
  entry_timestamp :: nat

type_synonym query_cache = "string \<times> int list \<rightharpoonup> cache_entry"

text \<open>
  Modelled from the spec: the cache's decision to reuse a result, which is not among the
  source files. A lookup needs no network call when its key has a lookup in flight, or a
  cached result younger than the lookup's \<^verbatim>\<open>staleTime\<close>.
\<close>

definition reusable :: "query_cache \<Rightarrow> nat \<Rightarrow> query_options \<Rightarrow> bool" where
  "reusable cache now opt =
     (case cache (queryKey opt) of
        None \<Rightarrow> False
      | Some entry \<Rightarrow>
          (case entry_status entry of
             In_flight \<Rightarrow> True
           | Cached \<Rightarrow> now < entry_timestamp entry + staleTime opt))"

text \<open>
  Modelled from the spec: the issuing of lookups by the fetch-caching layer, which is not
  among the source files. The network calls of one invocation, in chunk order: the
  identifier lists handed to \<^verbatim>\<open>fetchDealsGG\<close>. A lookup that starts is in flight
  for the lookups after it.
\<close>

fun network_calls :: "query_cache \<Rightarrow> nat \<Rightarrow> query_options list \<Rightarrow> int list list" where
  "network_calls cache now [] = []"
| "network_calls cache now (opt # opts) =
     (if reusable cache now opt then network_calls cache now opts
      else queryFn_appids opt #
           network_calls
             (cache(queryKey opt \<mapsto>
                \<lparr>entry_status = In_flight, entry_value = [], entry_timestamp = now\<rparr>))
             now opts)"

text \<open>
  Modelled from the spec: the cache window of the fetch-caching layer, which is not among
  the source files. A chunk is within its cache window when the cache holds a result for
  its key \<^verbatim>\<open>['appids', chunk]\<close> that is less than five minutes old.
\<close>

definition within_cache_window :: "query_cache \<Rightarrow> nat \<Rightarrow> int list \<Rightarrow> bool" where
  "within_cache_window cache now chunk =
     (case cache (''appids'', chunk) of
        None \<Rightarrow> False
      | Some entry \<Rightarrow>
          entry_status entry = Cached \<and> now < entry_timestamp entry + 5 * 60 * 1000)"

section \<open>Example inputs\<close>

text \<open>
  A deal record, a hook under which every lookup has succeeded with one record per
  requested identifier, and one query result for each of the three per-chunk states.
\<close>

definition example_deal :: "int \<Rightarrow> DealsGGItem" where
  "example_deal a =
     \<lparr>appid = a, name = ''Game'', url = ''https://gg.deals/game'', image_url = [],
      prices = \<lparr>retail_price = 1999 / 100, retail_price_low = 999 / 100,
                keyshop_price = 1549 / 100, keyshop_price_low = 5\<rparr>,
      currency = ''USD''\<rparr>"

definition answer_every_lookup :: "query_options list \<Rightarrow> query_result list" where
  "answer_every_lookup opts =
     map (\<lambda>opt. \<lparr>isLoading = False, error = None,
                  data = Some (map example_deal (queryFn_appids opt))\<rparr>) opts"

definition loading_result :: query_result where
  "loading_result = \<lparr>isLoading = True, error = None, data = None\<rparr>"

definition failed_result :: "string \<Rightarrow> query_result" where
  "failed_result m = \<lparr>isLoading = False, error = Some (AxiosError m None), data = None\<rparr>"

definition succeeded_result :: "DealsGGItem list \<Rightarrow> query_result" where
  "succeeded_result ds = \<lparr>isLoading = False, error = None, data = Some ds\<rparr>"

text \<open>
  A query result after a failed refetch: it holds the error and the data of the earlier
  success. A hook that reports such a result for the first chunk while the second loads.
\<close>

definition stale_failed_result :: query_result where
  "stale_failed_result =
     \<lparr>isLoading = False, error = Some (AxiosError ''Network Error'' None),
      data = Some [example_deal 7]\<rparr>"

definition refetch_failed_hook :: "query_options list \<Rightarrow> query_result list" where
  "refetch_failed_hook opts = [stale_failed_result, loading_result]"

text \<open>A cache in which both chunks of the list \<open>0, \<dots>, 50\<close> have been stored.\<close>

definition cache_after_first_run :: query_cache where
  "cache_after_first_run =
     [(''appids'', map int [0..<50]) \<mapsto>
        \<lparr>entry_status = Cached, entry_value = map example_deal (map int [0..<50]),
         entry_timestamp = 1000\<rparr>,
      (''appids'', [50]) \<mapsto>
        \<lparr>entry_status = Cached, entry_value = [example_deal 50], entry_timestamp = 1200\<rparr>]"

section \<open>Properties of the chunking loop\<close>

lemma chunks_loop_acc:
  "chunks_loop appids i results = results @ chunks_loop appids i []"
proof (induction "length appids - i" arbitrary: i results rule: less_induct)
  case less
  show ?case
  proof (cases "i < length appids")
    case True
    let ?s = "slice appids i (i + BATCH_SIZE)"
    have smaller: "length appids - (i + BATCH_SIZE) < length appids - i"
      using True by (simp add: BATCH_SIZE_def)
    have "chunks_loop appids i results = chunks_loop appids (i + BATCH_SIZE) (results @ [?s])"
      using True by (simp add: chunks_loop.simps [of appids i results])
    also have "\<dots> = (results @ [?s]) @ chunks_loop appids (i + BATCH_SIZE) []"
      by (rule less [OF smaller])
    finally have left: "chunks_loop appids i results =
        results @ ?s # chunks_loop appids (i + BATCH_SIZE) []"
      by simp
    have "chunks_loop appids i [] = chunks_loop appids (i + BATCH_SIZE) [?s]"
      using True by (simp add: chunks_loop.simps [of appids i "[]"])
    also have "\<dots> = [?s] @ chunks_loop appids (i + BATCH_SIZE) []"
      by (rule less [OF smaller])
    finally have right: "chunks_loop appids i [] = ?s # chunks_loop appids (i + BATCH_SIZE) []"
      by simp
    show ?thesis
      by (simp only: left right)
  next
    case False
    then show ?thesis
      by (simp add: chunks_loop.simps [of appids i])
  qed
qed

lemma chunks_loop_step:
  "i < length appids \<Longrightarrow>
   chunks_loop appids i [] = slice appids i (i + BATCH_SIZE) # chunks_loop appids (i + BATCH_SIZE) []"
  using chunks_loop_acc [of appids "i + BATCH_SIZE" "[slice appids i (i + BATCH_SIZE)]"]
  by (simp add: chunks_loop.simps [of appids i "[]"])

lemma chunks_loop_done:
  "\<not> i < length appids \<Longrightarrow> chunks_loop appids i results = results"
  by (simp add: chunks_loop.simps [of appids i results])

lemma concat_chunks_loop: "concat (chunks_loop appids i []) = drop i appids"
proof (induction "length appids - i" arbitrary: i rule: less_induct)
  case less
  show ?case
  proof (cases "i < length appids")
    case True
    have smaller: "length appids - (i + BATCH_SIZE) < length appids - i"
      using True by (simp add: BATCH_SIZE_def)
    have "concat (chunks_loop appids i []) =
          slice appids i (i + BATCH_SIZE) @ drop (i + BATCH_SIZE) appids"
      by (simp add: chunks_loop_step [OF True] less [OF smaller])
    also have "\<dots> = take BATCH_SIZE (drop i appids) @ drop BATCH_SIZE (drop i appids)"
      by (simp add: slice_def add.commute)
    finally show ?thesis
      by (simp only: append_take_drop_id)
  next
    case False
    then show ?thesis
      by (simp add: chunks_loop_done)
  qed
qed

lemma ceil_div_step:
  fixes m :: nat
  assumes "0 < m"
  shows "Suc ((m - 50 + 49) div 50) = (m + 49) div 50"
proof (cases "50 \<le> m")
  case True
  then have "m + 49 = (m - 50 + 49) + 50"
    by simp
  then have "(m + 49) div 50 = ((m - 50 + 49) + 50) div 50"
    by (rule arg_cong)
  also have "\<dots> = Suc ((m - 50 + 49) div 50)"
    by (simp only: div_add_self2)
  finally show ?thesis
    by simp
next
  case False
  then have a: "m - 50 = 0"
    by simp
  have "(m + 49) div 50 = 1"
    using assms False by (intro div_nat_eqI) simp_all
  with a show ?thesis
    by simp
qed

lemma length_chunks_loop:
  "length (chunks_loop appids i []) = (length appids - i + 49) div 50"
proof (induction "length appids - i" arbitrary: i rule: less_induct)
  case less
  show ?case
  proof (cases "i < length appids")
    case True
    have smaller: "length appids - (i + BATCH_SIZE) < length appids - i"
      using True by (simp add: BATCH_SIZE_def)
    have "length (chunks_loop appids i []) =
          Suc ((length appids - (i + BATCH_SIZE) + 49) div 50)"
      by (simp add: chunks_loop_step [OF True] less [OF smaller])
    also have "\<dots> = Suc ((length appids - i - 50 + 49) div 50)"
      by (simp add: BATCH_SIZE_def)
    also have "\<dots> = (length appids - i + 49) div 50"
      using True by (intro ceil_div_step) simp
    finally show ?thesis .
  next
    case False
    then show ?thesis
      by (simp add: chunks_loop_done)
  qed
qed

lemma nth_chunks_loop:
  "k < length (chunks_loop appids i []) \<Longrightarrow>
   chunks_loop appids i [] ! k =
   slice appids (i + BATCH_SIZE * k) (i + BATCH_SIZE * k + BATCH_SIZE)"
proof (induction k arbitrary: i)
  case 0
  then have "i < length appids"
    by (cases "i < length appids") (simp_all add: chunks_loop_done)
  then show ?case
    by (simp add: chunks_loop_step)
next
  case (Suc k)
  then have lt: "i < length appids"
    by (cases "i < length appids") (simp_all add: chunks_loop_done)
  from Suc.prems have "k < length (chunks_loop appids (i + BATCH_SIZE) [])"
    by (simp add: chunks_loop_step [OF lt])
  from Suc.IH [OF this] show ?case
    by (simp add: chunks_loop_step [OF lt] ac_simps)
qed

lemma ceil_as_div: "int ((n + 49) div 50) = \<lceil>real n / 50\<rceil>"
  by linarith

lemma concat_chunks: "concat (chunks appids) = appids"
  by (simp add: chunks_def concat_chunks_loop)

lemma length_chunks: "length (chunks appids) = (length appids + 49) div 50"
  by (simp add: chunks_def length_chunks_loop)

lemma nth_chunks:
  "i < length (chunks appids) \<Longrightarrow>
   chunks appids ! i = slice appids (BATCH_SIZE * i) (BATCH_SIZE * i + BATCH_SIZE)"
  using nth_chunks_loop [of i appids 0] by (simp add: chunks_def)

lemma chunk_index_bound:
  "i < length (chunks appids) \<Longrightarrow> BATCH_SIZE * i < length appids"
proof -
  assume "i < length (chunks appids)"
  then have "i < (length appids + 49) div 50"
    by (simp add: length_chunks)
  then have "Suc i \<le> (length appids + 49) div 50"
    by simp
  then have "Suc i * 50 \<le> length appids + 49"
    by (simp only: less_eq_div_iff_mult_less_eq [OF zero_less_numeral])
  then show ?thesis
    by (simp add: BATCH_SIZE_def)
qed

lemma length_nth_chunks:
  "i < length (chunks appids) \<Longrightarrow>
   length (chunks appids ! i) = min BATCH_SIZE (length appids - BATCH_SIZE * i)"
  by (simp add: nth_chunks slice_def min.commute)

lemma chunk_of_position:
  assumes "j < length appids"
  shows "j div 50 < length (chunks appids)"
proof -
  from assms have "j + 50 \<le> length appids + 49"
    by simp
  then have "(j + 50) div 50 \<le> (length appids + 49) div 50"
    by (rule div_le_mono)
  then show ?thesis
    by (simp add: length_chunks)
qed

lemma nth_nth_chunks:
  assumes "j < length appids"
  shows "chunks appids ! (j div 50) ! (j mod 50) = appids ! j"
proof -
  have "chunks appids ! (j div 50) = take 50 (drop (50 * (j div 50)) appids)"
    using nth_chunks [OF chunk_of_position [OF assms]]
    by (simp add: slice_def BATCH_SIZE_def)
  moreover have "50 * (j div 50) + j mod 50 = j"
    by simp
  ultimately show ?thesis
    using assms by (simp del: mult_div_mod_eq)
qed

lemma chunks_Nil: "chunks [] = []"
  by (simp add: chunks_def chunks_loop_done)

lemma chunk_nonempty:
  "i < length (chunks appids) \<Longrightarrow> chunks appids ! i \<noteq> []"
  using chunk_index_bound [of i appids]
  by (simp add: nth_chunks slice_def BATCH_SIZE_def)

lemma chunk_full:
  assumes "Suc i < length (chunks appids)"
  shows "length (chunks appids ! i) = 50"
proof -
  have "BATCH_SIZE * Suc i < length appids"
    using assms by (rule chunk_index_bound)
  moreover have "i < length (chunks appids)"
    using assms by simp
  ultimately show ?thesis
    by (simp add: length_nth_chunks BATCH_SIZE_def)
qed

lemma queryFn_appids_queries_options:
  "map queryFn_appids (queries_options cs) = cs"
  by (simp add: queries_options_def comp_def)

lemma queryKey_queries_options:
  "map queryKey (queries_options cs) = map (Pair ''appids'') cs"
  by (simp add: queries_options_def comp_def)

lemma chunks_51: "chunks (map int [0..<51]) = [map int [0..<50], [50]]"
  by (simp add: chunks_def chunks_loop.simps slice_def BATCH_SIZE_def take_map drop_map)

lemma chunks_small: "chunks [3, 5, 3] = [[3, 5, 3]]"
  by (simp add: chunks_def chunks_loop.simps slice_def BATCH_SIZE_def)

section \<open>Properties of the component\<close>

lemma DealsGG_loading:
  "DealsGG_isLoading (queries useQueries appids) \<Longrightarrow>
   DealsGG useQueries appids =
     Loading (DealsGG_loadedCount (queries useQueries appids)) (length (chunks appids))"
  by (simp add: DealsGG_def)

lemma DealsGG_error:
  "\<not> DealsGG_isLoading (queries useQueries appids) \<Longrightarrow>
   DealsGG_errors (queries useQueries appids) = e # es \<Longrightarrow>
   DealsGG useQueries appids = ErrorView (map_option message e)"
  by (simp add: DealsGG_def)

lemma DealsGG_cards:
  "\<not> DealsGG_isLoading (queries useQueries appids) \<Longrightarrow>
   DealsGG_errors (queries useQueries appids) = [] \<Longrightarrow>
   DealsGG useQueries appids = Cards (DealsGG_allData (queries useQueries appids))"
  by (simp add: DealsGG_def)

lemma DealsGG_isLoading_iff: "DealsGG_isLoading qs \<longleftrightarrow> (\<exists>q \<in> set qs. pending q)"
  by (simp add: DealsGG_isLoading_def pending_def list_ex_iff)

lemma DealsGG_errors_Nil_iff: "DealsGG_errors qs = [] \<longleftrightarrow> (\<forall>q \<in> set qs. error q = None)"
  by (simp add: DealsGG_errors_def filter_empty_conv)

lemma DealsGG_errors_first:
  "find (\<lambda>q. error q \<noteq> None) qs = Some q \<Longrightarrow>
   \<exists>es. DealsGG_errors qs = error q # es"
  by (induction qs) (auto simp: DealsGG_errors_def split: if_splits)

lemma find_failed:
  "\<forall>q \<in> set qs. \<not> pending q \<Longrightarrow> find failed qs = find (\<lambda>q. error q \<noteq> None) qs"
  by (induction qs) (simp_all add: failed_def pending_def)

lemma DealsGG_allData_all:
  "\<forall>q \<in> set qs. data q \<noteq> None \<Longrightarrow> DealsGG_allData qs = concat (map (\<lambda>q. the (data q)) qs)"
  by (simp add: DealsGG_allData_def)

lemma length_concat_map:
  "length (concat (map f xs)) = sum_list (map (\<lambda>x. length (f x)) xs)"
  by (simp add: length_concat comp_def)

lemma chunks_101:
  "chunks (map int [0..<101]) = [map int [0..<50], map int [50..<100], [100]]"
  by (simp add: chunks_def chunks_loop.simps slice_def BATCH_SIZE_def take_map drop_map)

lemma count_list_map_le: "count_list xs x \<le> count_list (map f xs) (f x)"
  by (induction xs) simp_all

lemma count_DealsGG_allData:
  "count_list (DealsGG_allData qs) d =
   sum_list (map (\<lambda>q. case data q of None \<Rightarrow> 0 | Some ds \<Rightarrow> count_list ds d) qs)"
  by (induction qs) (auto simp: DealsGG_allData_def)

lemma DealsGG_every_lookup_answered:
  assumes "queries useQueries appids =
      map (\<lambda>chunk. \<lparr>isLoading = False, error = None, data = Some (map deal_of chunk)\<rparr>)
        (chunks appids)"
  shows "DealsGG useQueries appids = Cards (map deal_of appids)"
proof -
  let ?qs = "queries useQueries appids"
  have "\<not> DealsGG_isLoading ?qs"
    by (simp add: assms DealsGG_isLoading_def list_ex_iff)
  moreover have "DealsGG_errors ?qs = []"
    by (simp add: assms DealsGG_errors_Nil_iff)
  ultimately have "DealsGG useQueries appids = Cards (DealsGG_allData ?qs)"
    by (rule DealsGG_cards)
  also have "DealsGG_allData ?qs = concat (map (map deal_of) (chunks appids))"
    by (simp add: assms DealsGG_allData_def comp_def)
  also have "\<dots> = map deal_of (concat (chunks appids))"
    by (simp only: map_concat)
  finally show ?thesis
    by (simp only: concat_chunks)
qed

lemma queries_answer_every_lookup:
  "queries answer_every_lookup appids =
     map (\<lambda>chunk. \<lparr>isLoading = False, error = None, data = Some (map example_deal chunk)\<rparr>)
       (chunks appids)"
  by (simp add: queries_def answer_every_lookup_def queries_options_def comp_def)

lemma data_count_by_state:
  "length (filter (\<lambda>q. data q \<noteq> None) qs) =
     length (filter succeeded qs)
     + length (filter (\<lambda>q. failed q \<and> data q \<noteq> None) qs)
     + length (filter (\<lambda>q. pending q \<and> data q \<noteq> None) qs)"
  by (induction qs) (auto simp: succeeded_def failed_def pending_def)

section \<open>Properties of the fetch-caching layer\<close>

lemma network_calls_not_reusable:
  "c \<in> set (network_calls cache now opts) \<Longrightarrow>
   \<exists>opt \<in> set opts. c = queryFn_appids opt \<and> \<not> reusable cache now opt"
proof (induction opts arbitrary: cache)
  case Nil
  then show ?case by simp
next
  case (Cons opt opts)
  show ?case
  proof (cases "reusable cache now opt")
    case True
    with Cons show ?thesis by auto
  next
    case False
    let ?cache' = "cache(queryKey opt \<mapsto>
        \<lparr>entry_status = In_flight, entry_value = [], entry_timestamp = now\<rparr>)"
    from Cons.prems False
    consider "c = queryFn_appids opt" | "c \<in> set (network_calls ?cache' now opts)"
      by auto
    then show ?thesis
    proof cases
      case 1
      with False show ?thesis by auto
    next
      case 2
      from Cons.IH [OF 2] obtain opt' where o: "opt' \<in> set opts" "c = queryFn_appids opt'"
          "\<not> reusable ?cache' now opt'"
        by blast
      from o(3) have "queryKey opt' \<noteq> queryKey opt"
        by (auto simp: reusable_def)
      with o(3) have "\<not> reusable cache now opt'"
        by (simp add: reusable_def)
      with o show ?thesis by auto
    qed
  qed
qed

lemma reusable_within_window:
  "opt \<in> set (queries_options cs) \<Longrightarrow> within_cache_window cache now (queryFn_appids opt) \<Longrightarrow>
   reusable cache now opt"
  by (auto simp: queries_options_def within_cache_window_def reusable_def
      split: option.splits cache_status.splits)

lemma last_chunk_differs: "[50] \<noteq> map int [0..<50]"
proof
  assume "[50] = map int [0..<50]"
  then have "length [50 :: int] = length (map int [0..<50])"
    by (rule arg_cong)
  then show False
    by simp
qed

lemma stale_entries_are_fetched_again:
  "network_calls cache_after_first_run 301100 (queries_options (chunks (map int [0..<51])))
   = [map int [0..<50]]"
  by (simp add: chunks_51 queries_options_def reusable_def cache_after_first_run_def
      last_chunk_differs last_chunk_differs [symmetric])

lemma cold_cache_fetches_every_chunk:
  "network_calls Map.empty 0 (queries_options (chunks (map int [0..<51])))
   = [map int [0..<50], [50]]"
  by (simp add: chunks_51 queries_options_def reusable_def last_chunk_differs
      last_chunk_differs [symmetric])

section \<open>Properties of the chunk lookup\<close>

lemma catch_block_throws: "\<exists>log e'. catch_block e = (log, Inl e')"
  by (auto simp: catch_block_def Let_def split: sum.splits option.splits)

lemma fetchDealsGG_failure_propagates:
  assumes "post ''/api/dealsgg/games'' appids w = (Inl e, w')"
  shows "\<exists>log e'. fetchDealsGG post appids w = ((log, Inl e'), w')"
  using catch_block_throws [of e] by (auto simp: fetchDealsGG_def assms)

lemma fetchDealsGG_rethrows:
  assumes "post ''/api/dealsgg/games'' appids w = (Inl e, w')"
    and "\<forall>r. response e = Some r \<longrightarrow> response_data r \<noteq> JNull \<and> response_data r \<noteq> JUndefined"
  shows "\<exists>log. fetchDealsGG post appids w = ((log, Inl e), w')"
proof (cases "isAxiosError e \<and> response e \<noteq> None")
  case True
  then obtain r where r: "response e = Some r"
    by auto
  with assms(2) have "\<exists>d. get_detail (response_data r) = Inr d"
    by (cases "response_data r") auto
  with True r show ?thesis
    by (auto simp: fetchDealsGG_def assms(1) catch_block_def)
next
  case False
  then show ?thesis
    by (auto simp: fetchDealsGG_def assms(1) catch_block_def split: option.splits)
qed

lemma fetchDealsGG_detail_logged:
  "fetchDealsGG
     (\<lambda>path body w. (Inl (AxiosError ''Request failed with status code 404''
         (Some \<lparr>response_status = 404,
                response_data = JObj [(''detail'', JStr ''Not Found'')]\<rparr>)), Suc w))
     [730, 440] (0::nat)
   = (([(''Status:'', JNum 404), (''Message:'', JStr ''Not Found'')],
       Inl (AxiosError ''Request failed with status code 404''
         (Some \<lparr>response_status = 404,
                response_data = JObj [(''detail'', JStr ''Not Found'')]\<rparr>))), 1)"
  by (simp add: fetchDealsGG_def catch_block_def)

section \<open>Claims about the chunking\<close>

text \<open>
  C1. For every identifier list of length \<open>N\<close> the chunking produces exactly
  \<open>\<lceil>N / 50\<rceil>\<close> chunks; chunk \<open>i\<close> is the contiguous slice of the positions
  \<open>50 i \<le> p < 50 i + 50\<close> (so the slices do not overlap) and has at most
  \<open>BATCH_SIZE = 50\<close> elements; the chunks concatenated in order are the original
  list; a list of 50 identifiers gives one chunk and a list of 51 gives two, of 50 and 1
  elements.
\<close>

theorem chunks_partition:
  "BATCH_SIZE = 50
   \<and> int (length (chunks appids)) = \<lceil>real (length appids) / 50\<rceil>
   \<and> (\<forall>i < length (chunks appids).
         chunks appids ! i = slice appids (BATCH_SIZE * i) (BATCH_SIZE * i + BATCH_SIZE)
         \<and> length (chunks appids ! i) \<le> BATCH_SIZE)
   \<and> concat (chunks appids) = appids
   \<and> (length appids = 50 \<longrightarrow> length (chunks appids) = 1)
   \<and> (length appids = 51 \<longrightarrow> map length (chunks appids) = [50, 1])"
proof (intro conjI allI impI)
  show "BATCH_SIZE = 50"
    by (rule BATCH_SIZE_def)
  show "int (length (chunks appids)) = \<lceil>real (length appids) / 50\<rceil>"
    by (simp only: length_chunks ceil_as_div)
  show "concat (chunks appids) = appids"
    by (rule concat_chunks)
  show "length (chunks appids) = 1" if "length appids = 50"
    using that by (simp add: length_chunks)
  show "map length (chunks appids) = [50, 1]" if n: "length appids = 51"
  proof (rule nth_equalityI)
    show "length (map length (chunks appids)) = length [50, 1::nat]"
      using n by (simp add: length_chunks)
    fix i assume "i < length (map length (chunks appids))"
    then have i: "i < length (chunks appids)" and "i < 2"
      using n by (simp_all add: length_chunks)
    then consider "i = 0" | "i = 1"
      by linarith
    then show "map length (chunks appids) ! i = [50, 1] ! i"
      using i n by cases (simp_all add: length_nth_chunks BATCH_SIZE_def)
  qed
next
  fix i assume i: "i < length (chunks appids)"
  show "chunks appids ! i = slice appids (BATCH_SIZE * i) (BATCH_SIZE * i + BATCH_SIZE)"
    using i by (rule nth_chunks)
  show "length (chunks appids ! i) \<le> BATCH_SIZE"
    using i by (simp add: length_nth_chunks)
qed

theorem chunks_partition_witness:
  "length (map int [0..<51]) = 51
   \<and> map length (chunks (map int [0..<51])) = [50, 1]
   \<and> 1 < length (chunks (map int [0..<51]))
   \<and> chunks (map int [0..<51]) ! 1 = [50]
   \<and> length (map int [0..<50]) = 50
   \<and> length (chunks (map int [0..<50])) = 1"
proof -
  have n51: "length (map int [0..<51]) = 51" and n50: "length (map int [0..<50]) = 50"
    by simp_all
  have two: "map length (chunks (map int [0..<51])) = [50, 1]"
    using chunks_partition [of "map int [0..<51]"] n51 by blast
  then have "length (map length (chunks (map int [0..<51]))) = 2"
    by simp
  then have i: "1 < length (chunks (map int [0..<51]))"
    by simp
  have "chunks (map int [0..<51]) ! 1 = slice (map int [0..<51]) (BATCH_SIZE * 1) (BATCH_SIZE * 1 + BATCH_SIZE)"
    using chunks_partition [of "map int [0..<51]"] i by blast
  then have c1: "chunks (map int [0..<51]) ! 1 = [50]"
    by (simp add: slice_def BATCH_SIZE_def drop_map)
  have one: "length (chunks (map int [0..<50])) = 1"
    using chunks_partition [of "map int [0..<50]"] n50 by blast
  from n51 two i c1 n50 one show ?thesis
    by (intro conjI)
qed

text \<open>
  C5. For the empty identifier list no chunk is produced, the list of lookups handed to
  \<^verbatim>\<open>useQueries\<close> is empty, and (the hook returning one result per lookup, so none) the
  component at once shows the succeeded view with no deal record.
\<close>

theorem empty_identifier_list:
  "chunks [] = []
   \<and> queries_options (chunks []) = []
   \<and> (useQueries [] = [] \<longrightarrow> DealsGG useQueries [] = Cards [])"
  by (simp add: chunks_Nil queries_options_def queries_def DealsGG_def DealsGG_isLoading_def
      DealsGG_errors_def DealsGG_allData_def)

theorem empty_identifier_list_witness:
  "map (\<lambda>opts. \<lparr>isLoading = True, error = None, data = None\<rparr>) [] = []
   \<and> DealsGG (map (\<lambda>opts. \<lparr>isLoading = True, error = None, data = None\<rparr>)) [] = Cards []"
  using empty_identifier_list [of "map (\<lambda>opts. \<lparr>isLoading = True, error = None, data = None\<rparr>)"]
  by simp

text \<open>
  C9. A non-empty identifier list of length \<open>N\<close> has at least one chunk; chunk \<open>i\<close>
  has exactly \<open>min 50 (N - 50 i)\<close> elements and is not empty; every chunk but the last
  has exactly 50 elements; no lookup is created with an empty identifier list.
\<close>

theorem chunks_never_empty:
  "(appids \<noteq> [] \<longrightarrow> chunks appids \<noteq> [])
   \<and> (\<forall>i < length (chunks appids).
         length (chunks appids ! i) = min 50 (length appids - 50 * i)
         \<and> chunks appids ! i \<noteq> [])
   \<and> (\<forall>i. Suc i < length (chunks appids) \<longrightarrow> length (chunks appids ! i) = 50)
   \<and> (\<forall>q \<in> set (queries_options (chunks appids)). queryFn_appids q \<noteq> [])"
proof (intro conjI allI impI ballI)
  show "chunks appids \<noteq> []" if "appids \<noteq> []"
    using that concat_chunks [of appids] by auto
  show "length (chunks appids ! i) = 50" if "Suc i < length (chunks appids)" for i
    using that by (rule chunk_full)
  show "queryFn_appids q \<noteq> []" if "q \<in> set (queries_options (chunks appids))" for q
  proof -
    from that have "queryFn_appids q \<in> set (map queryFn_appids (queries_options (chunks appids)))"
      by simp
    then have "queryFn_appids q \<in> set (chunks appids)"
      by (simp only: queryFn_appids_queries_options)
    then obtain i where "i < length (chunks appids)" "chunks appids ! i = queryFn_appids q"
      by (auto simp: in_set_conv_nth)
    then show ?thesis
      using chunk_nonempty [of i appids] by simp
  qed
next
  fix i assume i: "i < length (chunks appids)"
  show "length (chunks appids ! i) = min 50 (length appids - 50 * i)"
    using i by (simp add: length_nth_chunks BATCH_SIZE_def)
  show "chunks appids ! i \<noteq> []"
    using i by (rule chunk_nonempty)
qed

theorem chunks_never_empty_witness:
  "map int [0..<51] \<noteq> []
   \<and> chunks (map int [0..<51]) \<noteq> []
   \<and> Suc 0 < length (chunks (map int [0..<51]))
   \<and> length (chunks (map int [0..<51]) ! 0) = 50
   \<and> length (chunks (map int [0..<51]) ! Suc 0) = 1
   \<and> \<lparr>queryKey = (''appids'', [50]), queryFn_appids = [50], staleTime = 300000\<rparr>
       \<in> set (queries_options (chunks (map int [0..<51])))
   \<and> queryFn_appids \<lparr>queryKey = (''appids'', [50]), queryFn_appids = [50],
         staleTime = 300000\<rparr> \<noteq> []"
  using chunks_never_empty [of "map int [0..<51]"]
  by (simp add: chunks_51 queries_options_def)

text \<open>
  C10. The aggregator removes no duplicate: an identifier occurs in the chunks as often as
  in the input list, position \<open>j\<close> of the input is position \<open>j mod 50\<close> of chunk
  \<open>j div 50\<close>, each lookup is created with its whole chunk, and the aggregate data
  holds a deal record as often as the chunks' results hold it together. When every lookup
  has succeeded with one record per requested identifier, the component shows one card per
  element of the input list, so an identifier that occurs \<open>k\<close> times is shown at least
  \<open>k\<close> times.
\<close>

theorem no_deduplication:
  "count_list (concat (chunks appids)) x = count_list appids x
   \<and> (\<forall>j < length appids. chunks appids ! (j div 50) ! (j mod 50) = appids ! j)
   \<and> map queryFn_appids (queries_options (chunks appids)) = chunks appids
   \<and> count_list (DealsGG_allData qs) d =
       sum_list (map (\<lambda>q. case data q of None \<Rightarrow> 0 | Some ds \<Rightarrow> count_list ds d) qs)
   \<and> (queries useQueries appids =
         map (\<lambda>chunk. \<lparr>isLoading = False, error = None, data = Some (map deal_of chunk)\<rparr>)
           (chunks appids) \<longrightarrow>
       DealsGG useQueries appids = Cards (map deal_of appids)
       \<and> count_list appids x \<le> count_list (deals_shown (DealsGG useQueries appids)) (deal_of x))"
proof (intro conjI allI impI)
  show "count_list (concat (chunks appids)) x = count_list appids x"
    by (simp only: concat_chunks)
  show "chunks appids ! (j div 50) ! (j mod 50) = appids ! j" if "j < length appids" for j
    using that by (rule nth_nth_chunks)
  show "map queryFn_appids (queries_options (chunks appids)) = chunks appids"
    by (rule queryFn_appids_queries_options)
  show "count_list (DealsGG_allData qs) d =
      sum_list (map (\<lambda>q. case data q of None \<Rightarrow> 0 | Some ds \<Rightarrow> count_list ds d) qs)"
    by (rule count_DealsGG_allData)
next
  assume a: "queries useQueries appids =
      map (\<lambda>chunk. \<lparr>isLoading = False, error = None, data = Some (map deal_of chunk)\<rparr>)
        (chunks appids)"
  then show v: "DealsGG useQueries appids = Cards (map deal_of appids)"
    by (rule DealsGG_every_lookup_answered)
  show "count_list appids x \<le> count_list (deals_shown (DealsGG useQueries appids)) (deal_of x)"
    by (simp add: v count_list_map_le)
qed

theorem no_deduplication_witness:
  "(2::nat) < length [3, 5, 3 :: int]
   \<and> chunks [3, 5, 3] ! (2 div 50) ! (2 mod 50) = [3, 5, 3] ! 2
   \<and> DealsGG answer_every_lookup [3, 5, 3] =
       Cards [example_deal 3, example_deal 5, example_deal 3]
   \<and> 2 \<le> count_list (deals_shown (DealsGG answer_every_lookup [3, 5, 3])) (example_deal 3)"
proof -
  have j: "(2::nat) < length [3, 5, 3 :: int]"
    by simp
  note inst = no_deduplication [of "[3, 5, 3]" 3 "[]" "example_deal 3" answer_every_lookup
      example_deal]
  note positions = inst [THEN conjunct2, THEN conjunct1, rule_format, OF j]
  note shown = inst [THEN conjunct2, THEN conjunct2, THEN conjunct2, THEN conjunct2, THEN mp,
      OF queries_answer_every_lookup]
  from shown have "DealsGG answer_every_lookup [3, 5, 3] =
      Cards [example_deal 3, example_deal 5, example_deal 3]"
    by simp
  moreover from shown have "2 \<le>
      count_list (deals_shown (DealsGG answer_every_lookup [3, 5, 3])) (example_deal 3)"
    by simp
  ultimately show ?thesis
    using j positions by (intro conjI)
qed

section \<open>Claims about the aggregate status\<close>

text \<open>
  C2. When every chunk lookup has succeeded, the component shows the succeeded view, whose
  deal records are the concatenation of the chunks' record lists in chunk order; their
  number is the sum of the chunks' record counts.
\<close>

theorem all_succeeded_concatenation:
  assumes "\<forall>q \<in> set (queries useQueries appids). succeeded q"
  shows "DealsGG useQueries appids =
           Cards (concat (map (\<lambda>q. the (data q)) (queries useQueries appids)))
         \<and> length (deals_shown (DealsGG useQueries appids)) =
           sum_list (map (\<lambda>q. length (the (data q))) (queries useQueries appids))"
proof -
  let ?qs = "queries useQueries appids"
  have "\<not> DealsGG_isLoading ?qs"
    using assms by (simp add: DealsGG_isLoading_iff succeeded_def pending_def)
  moreover have "DealsGG_errors ?qs = []"
    using assms by (simp add: DealsGG_errors_Nil_iff succeeded_def)
  ultimately have "DealsGG useQueries appids = Cards (DealsGG_allData ?qs)"
    by (rule DealsGG_cards)
  moreover have "DealsGG_allData ?qs = concat (map (\<lambda>q. the (data q)) ?qs)"
    using assms by (intro DealsGG_allData_all) (simp add: succeeded_def)
  ultimately show ?thesis
    by (simp add: length_concat_map)
qed

theorem all_succeeded_concatenation_witness:
  "queries answer_every_lookup (map int [0..<51]) =
     [succeeded_result (map example_deal (map int [0..<50])),
      succeeded_result [example_deal 50]]
   \<and> succeeded (succeeded_result (map example_deal (map int [0..<50])))
   \<and> succeeded (succeeded_result [example_deal 50])
   \<and> DealsGG answer_every_lookup (map int [0..<51]) =
       Cards (map example_deal (map int [0..<50]) @ [example_deal 50])
   \<and> length (deals_shown (DealsGG answer_every_lookup (map int [0..<51]))) = 50 + 1"
proof -
  have qs: "queries answer_every_lookup (map int [0..<51]) =
      [succeeded_result (map example_deal (map int [0..<50])),
       succeeded_result [example_deal 50]]"
    by (simp add: queries_answer_every_lookup chunks_51 succeeded_result_def)
  have s1: "succeeded (succeeded_result (map example_deal (map int [0..<50])))"
    and s2: "succeeded (succeeded_result [example_deal 50])"
    by (simp_all add: succeeded_def succeeded_result_def)
  have h: "\<forall>q \<in> set (queries answer_every_lookup (map int [0..<51])). succeeded q"
    by (simp only: qs) (simp add: succeeded_def succeeded_result_def)
  from all_succeeded_concatenation [OF h]
  have "DealsGG answer_every_lookup (map int [0..<51]) =
       Cards (map example_deal (map int [0..<50]) @ [example_deal 50])
     \<and> length (deals_shown (DealsGG answer_every_lookup (map int [0..<51]))) = 50 + 1"
    by (simp add: qs succeeded_result_def)
  with qs s1 s2 show ?thesis
    by (intro conjI) simp_all
qed

text \<open>
  C3. Whenever at least one chunk is pending, whatever the states of the other chunks, the
  component shows the loading view (and no deal record).
\<close>

theorem any_pending_overall_pending:
  assumes "\<exists>q \<in> set (queries useQueries appids). pending q"
  shows "(\<exists>loadedCount. DealsGG useQueries appids = Loading loadedCount (length (chunks appids)))
         \<and> deals_shown (DealsGG useQueries appids) = []"
  using assms by (simp add: DealsGG_loading DealsGG_isLoading_iff)

theorem any_pending_overall_pending_witness:
  "queries (\<lambda>opts. [succeeded_result [example_deal 7], failed_result ''Network Error'',
       loading_result]) (map int [0..<101])
     = [succeeded_result [example_deal 7], failed_result ''Network Error'', loading_result]
   \<and> pending loading_result
   \<and> (\<exists>loadedCount. DealsGG (\<lambda>opts. [succeeded_result [example_deal 7],
        failed_result ''Network Error'', loading_result]) (map int [0..<101])
        = Loading loadedCount 3)
   \<and> deals_shown (DealsGG (\<lambda>opts. [succeeded_result [example_deal 7],
        failed_result ''Network Error'', loading_result]) (map int [0..<101])) = []"
proof -
  let ?hook = "\<lambda>opts :: query_options list. [succeeded_result [example_deal 7],
        failed_result ''Network Error'', loading_result]"
  have qs: "queries ?hook (map int [0..<101]) =
      [succeeded_result [example_deal 7], failed_result ''Network Error'', loading_result]"
    by (simp add: queries_def)
  have p: "pending loading_result"
    by (simp add: pending_def loading_result_def)
  have h: "\<exists>q \<in> set (queries ?hook (map int [0..<101])). pending q"
    by (simp only: qs) (simp add: p)
  from any_pending_overall_pending [OF h] qs p show ?thesis
    by (simp add: length_chunks)
qed

text \<open>
  C4. The component shows the error view exactly when no chunk is pending and at least one
  chunk has failed; the view then carries the message of the error of the first failed
  chunk in chunk order, and no deal record of a succeeded chunk.
\<close>

theorem overall_failed:
  "((\<exists>m. DealsGG useQueries appids = ErrorView m) \<longleftrightarrow>
      (\<forall>q \<in> set (queries useQueries appids). \<not> pending q)
      \<and> (\<exists>q \<in> set (queries useQueries appids). failed q))
   \<and> ((\<exists>m. DealsGG useQueries appids = ErrorView m) \<longrightarrow>
      (\<exists>q e. find failed (queries useQueries appids) = Some q \<and> error q = Some e
         \<and> DealsGG useQueries appids = ErrorView (Some (message e)))
      \<and> deals_shown (DealsGG useQueries appids) = [])"
proof -
  let ?qs = "queries useQueries appids"
  let ?failedView = "\<exists>m. DealsGG useQueries appids = ErrorView m"
  have settled: "\<forall>q \<in> set ?qs. \<not> pending q" and some: "\<exists>q \<in> set ?qs. failed q"
    if ?failedView
  proof -
    from that have nl: "\<not> DealsGG_isLoading ?qs"
      by (cases "DealsGG_isLoading ?qs") (auto simp: DealsGG_loading)
    then show "\<forall>q \<in> set ?qs. \<not> pending q"
      by (simp add: DealsGG_isLoading_iff)
    from that nl have "DealsGG_errors ?qs \<noteq> []"
      by (cases "DealsGG_errors ?qs") (auto simp: DealsGG_cards)
    then obtain q where "q \<in> set ?qs" "error q \<noteq> None"
      by (auto simp: DealsGG_errors_Nil_iff)
    with nl show "\<exists>q \<in> set ?qs. failed q"
      by (auto simp: failed_def DealsGG_isLoading_iff pending_def)
  qed
  have first: "\<exists>q e. find failed ?qs = Some q \<and> error q = Some e
       \<and> DealsGG useQueries appids = ErrorView (Some (message e))"
    if np: "\<forall>q \<in> set ?qs. \<not> pending q" and f: "\<exists>q \<in> set ?qs. failed q"
  proof -
    from f obtain q where q: "find failed ?qs = Some q"
      by (cases "find failed ?qs") (auto simp: find_None_iff)
    then have "failed q"
      by (auto simp: find_Some_iff)
    then obtain e where e: "error q = Some e"
      by (auto simp: failed_def)
    from q have "find (\<lambda>q. error q \<noteq> None) ?qs = Some q"
      by (simp only: find_failed [OF np])
    then obtain es where "DealsGG_errors ?qs = error q # es"
      using DealsGG_errors_first by blast
    moreover have "\<not> DealsGG_isLoading ?qs"
      using np by (simp add: DealsGG_isLoading_iff)
    ultimately have "DealsGG useQueries appids = ErrorView (map_option message (error q))"
      by (intro DealsGG_error)
    with q e show ?thesis
      by simp
  qed
  have iff: "?failedView \<longleftrightarrow> (\<forall>q \<in> set ?qs. \<not> pending q) \<and> (\<exists>q \<in> set ?qs. failed q)"
    using settled some first by blast
  have shown: "deals_shown (DealsGG useQueries appids) = []" if ?failedView
    using that by auto
  from iff first settled some shown show ?thesis
    by blast
qed

theorem overall_failed_witness:
  "queries (\<lambda>opts. [succeeded_result [example_deal 7],
        failed_result ''Request failed with status code 500'',
        failed_result ''Network Error'']) (map int [0..<101])
     = [succeeded_result [example_deal 7],
        failed_result ''Request failed with status code 500'',
        failed_result ''Network Error'']
   \<and> \<not> pending (succeeded_result [example_deal 7])
   \<and> \<not> pending (failed_result ''Request failed with status code 500'')
   \<and> \<not> pending (failed_result ''Network Error'')
   \<and> failed (failed_result ''Request failed with status code 500'')
   \<and> failed (failed_result ''Network Error'')
   \<and> DealsGG (\<lambda>opts. [succeeded_result [example_deal 7],
        failed_result ''Request failed with status code 500'',
        failed_result ''Network Error'']) (map int [0..<101])
       = ErrorView (Some ''Request failed with status code 500'')
   \<and> deals_shown (DealsGG (\<lambda>opts. [succeeded_result [example_deal 7],
        failed_result ''Request failed with status code 500'',
        failed_result ''Network Error'']) (map int [0..<101])) = []"
proof -
  let ?hook = "\<lambda>opts :: query_options list. [succeeded_result [example_deal 7],
        failed_result ''Request failed with status code 500'',
        failed_result ''Network Error'']"
  let ?ids = "map int [0..<101]"
  have qs: "queries ?hook ?ids = [succeeded_result [example_deal 7],
        failed_result ''Request failed with status code 500'',
        failed_result ''Network Error'']"
    by (simp add: queries_def)
  have settled: "\<not> pending (succeeded_result [example_deal 7])"
      "\<not> pending (failed_result ''Request failed with status code 500'')"
      "\<not> pending (failed_result ''Network Error'')"
    by (simp_all add: pending_def succeeded_result_def failed_result_def)
  have fails: "failed (failed_result ''Request failed with status code 500'')"
      "failed (failed_result ''Network Error'')"
    by (simp_all add: failed_def failed_result_def)
  have np: "\<forall>q \<in> set (queries ?hook ?ids). \<not> pending q"
    by (simp only: qs) (simp add: settled)
  have f: "\<exists>q \<in> set (queries ?hook ?ids). failed q"
    by (simp only: qs) (simp add: fails)
  note inst = overall_failed [of ?hook ?ids]
  from inst np f have ev: "\<exists>m. DealsGG ?hook ?ids = ErrorView m"
    by blast
  with inst obtain q e where "find failed (queries ?hook ?ids) = Some q" "error q = Some e"
      "DealsGG ?hook ?ids = ErrorView (Some (message e))"
    and shown: "deals_shown (DealsGG ?hook ?ids) = []"
    by blast
  then have "DealsGG ?hook ?ids = ErrorView (Some ''Request failed with status code 500'')"
    by (auto simp: queries_def failed_def succeeded_result_def failed_result_def)
  with qs settled fails shown show ?thesis
    by (intro conjI)
qed

text \<open>
  C6. While some chunk is pending, the loading view shows the number of chunks whose
  result carries data, out of the number of chunks. That number counts every succeeded
  chunk, and a failed (or pending) chunk exactly when its result carries data: a chunk
  that failed and carries no data is not counted, a chunk whose result holds both an error
  and the data of an earlier success is.
\<close>

theorem progress_indicator_counts_data:
  assumes "\<exists>q \<in> set (queries useQueries appids). pending q"
  shows "DealsGG useQueries appids =
           Loading (length (filter (\<lambda>q. data q \<noteq> None) (queries useQueries appids)))
                   (length (chunks appids))
         \<and> length (filter (\<lambda>q. data q \<noteq> None) (queries useQueries appids)) =
             length (filter succeeded (queries useQueries appids))
             + length (filter (\<lambda>q. failed q \<and> data q \<noteq> None) (queries useQueries appids))
             + length (filter (\<lambda>q. pending q \<and> data q \<noteq> None) (queries useQueries appids))"
proof
  show "DealsGG useQueries appids =
      Loading (length (filter (\<lambda>q. data q \<noteq> None) (queries useQueries appids)))
        (length (chunks appids))"
    using assms by (simp add: DealsGG_loading DealsGG_isLoading_iff DealsGG_loadedCount_def)
  show "length (filter (\<lambda>q. data q \<noteq> None) (queries useQueries appids)) =
      length (filter succeeded (queries useQueries appids))
      + length (filter (\<lambda>q. failed q \<and> data q \<noteq> None) (queries useQueries appids))
      + length (filter (\<lambda>q. pending q \<and> data q \<noteq> None) (queries useQueries appids))"
    by (rule data_count_by_state)
qed

theorem progress_indicator_counts_data_witness:
  "queries (\<lambda>opts. [succeeded_result [example_deal 3], stale_failed_result,
       failed_result ''Network Error'', loading_result]) (map int [0..<151])
     = [succeeded_result [example_deal 3], stale_failed_result,
        failed_result ''Network Error'', loading_result]
   \<and> pending loading_result
   \<and> DealsGG (\<lambda>opts. [succeeded_result [example_deal 3], stale_failed_result,
        failed_result ''Network Error'', loading_result]) (map int [0..<151]) = Loading 2 4"
proof -
  let ?hook = "\<lambda>opts :: query_options list. [succeeded_result [example_deal 3],
        stale_failed_result, failed_result ''Network Error'', loading_result]"
  let ?ids = "map int [0..<151]"
  have qs: "queries ?hook ?ids = [succeeded_result [example_deal 3], stale_failed_result,
        failed_result ''Network Error'', loading_result]"
    by (simp add: queries_def)
  have p: "pending loading_result"
    by (simp add: pending_def loading_result_def)
  have h: "\<exists>q \<in> set (queries ?hook ?ids). pending q"
    by (simp only: qs) (simp add: p)
  from progress_indicator_counts_data [OF h]
  have "DealsGG ?hook ?ids =
      Loading (length (filter (\<lambda>q. data q \<noteq> None) (queries ?hook ?ids)))
        (length (chunks ?ids))"
    by (rule conjunct1)
  then have "DealsGG ?hook ?ids = Loading 2 4"
    by (simp add: queries_def length_chunks succeeded_result_def stale_failed_result_def
        failed_result_def loading_result_def)
  with qs p show ?thesis
    by (intro conjI)
qed

text \<open>
  The count as the spec words it does not hold in general: with one chunk whose result
  holds an error and earlier data, and one chunk loading, no chunk has succeeded and the
  only chunk with data has failed, yet the loading view shows 1 of 2.
\<close>

theorem progress_indicator_counterexample:
  "queries refetch_failed_hook (map int [0..<51]) = [stale_failed_result, loading_result]
   \<and> pending loading_result
   \<and> failed stale_failed_result
   \<and> \<not> succeeded stale_failed_result
   \<and> spec_loadedCount (queries refetch_failed_hook (map int [0..<51])) = 0
   \<and> length (filter succeeded (queries refetch_failed_hook (map int [0..<51]))) = 0
   \<and> DealsGG refetch_failed_hook (map int [0..<51]) = Loading 1 2
   \<and> DealsGG refetch_failed_hook (map int [0..<51]) \<noteq>
       Loading (spec_loadedCount (queries refetch_failed_hook (map int [0..<51])))
         (length (chunks (map int [0..<51])))"
proof -
  have qs: "queries refetch_failed_hook (map int [0..<51]) = [stale_failed_result, loading_result]"
    by (simp add: queries_def refetch_failed_hook_def)
  have p: "pending loading_result"
    by (simp add: pending_def loading_result_def)
  have f: "failed stale_failed_result" and ns: "\<not> succeeded stale_failed_result"
    by (simp_all add: failed_def succeeded_def stale_failed_result_def)
  have c: "spec_loadedCount (queries refetch_failed_hook (map int [0..<51])) = 0"
    by (simp only: qs)
       (simp add: spec_loadedCount_def failed_def stale_failed_result_def loading_result_def)
  have s: "length (filter succeeded (queries refetch_failed_hook (map int [0..<51]))) = 0"
    by (simp only: qs) (simp add: succeeded_def stale_failed_result_def loading_result_def)
  have v: "DealsGG refetch_failed_hook (map int [0..<51]) = Loading 1 2"
    by (simp add: DealsGG_def qs DealsGG_isLoading_def DealsGG_loadedCount_def
        stale_failed_result_def loading_result_def length_chunks)
  have "DealsGG refetch_failed_hook (map int [0..<51]) \<noteq>
       Loading (spec_loadedCount (queries refetch_failed_hook (map int [0..<51])))
         (length (chunks (map int [0..<51])))"
    by (simp only: c v) simp
  with qs p f ns c s v show ?thesis
    by (intro conjI)
qed

section \<open>Claims about caching and the chunk lookup\<close>

text \<open>
  C7. Two invocations with equal identifier lists produce equal chunks and equal per-chunk
  cache keys (the key of a chunk is \<^verbatim>\<open>['appids', chunk]\<close>, with a stale time of five
  minutes). No network call is made for a chunk that is within its cache window; so when
  every chunk of the first invocation is within its window, invoking again with the same
  list makes no network call.
\<close>

theorem identical_list_reuses_cache:
  assumes "appids' = appids"
  shows "chunks appids' = chunks appids
    \<and> map queryKey (queries_options (chunks appids')) = map (Pair ''appids'') (chunks appids)
    \<and> (\<forall>opt \<in> set (queries_options (chunks appids')). staleTime opt = 5 * 60 * 1000)
    \<and> (\<forall>chunk \<in> set (network_calls cache now (queries_options (chunks appids'))).
          \<not> within_cache_window cache now chunk)
    \<and> ((\<forall>chunk \<in> set (chunks appids). within_cache_window cache now chunk) \<longrightarrow>
          network_calls cache now (queries_options (chunks appids')) = [])"
proof -
  have calls: "\<not> within_cache_window cache now chunk"
    if "chunk \<in> set (network_calls cache now (queries_options (chunks appids')))" for chunk
  proof -
    from network_calls_not_reusable [OF that] obtain opt
      where "opt \<in> set (queries_options (chunks appids'))" "chunk = queryFn_appids opt"
        "\<not> reusable cache now opt"
      by blast
    then show ?thesis
      using reusable_within_window by blast
  qed
  have none: "network_calls cache now (queries_options (chunks appids')) = []"
    if all: "\<forall>chunk \<in> set (chunks appids). within_cache_window cache now chunk"
  proof (rule ccontr)
    assume "network_calls cache now (queries_options (chunks appids')) \<noteq> []"
    then obtain chunk where c: "chunk \<in> set (network_calls cache now (queries_options (chunks appids')))"
      by (cases "network_calls cache now (queries_options (chunks appids'))") auto
    from network_calls_not_reusable [OF c] obtain opt
      where o: "opt \<in> set (queries_options (chunks appids'))" "chunk = queryFn_appids opt"
      by blast
    then have "chunk \<in> set (map queryFn_appids (queries_options (chunks appids')))"
      by simp
    then have "chunk \<in> set (chunks appids)"
      by (simp only: queryFn_appids_queries_options assms)
    with all calls [OF c] show False
      by blast
  qed
  have stale: "\<forall>opt \<in> set (queries_options (chunks appids')). staleTime opt = 5 * 60 * 1000"
    by (auto simp: queries_options_def)
  from assms calls none stale show ?thesis
    by (simp add: queryKey_queries_options)
qed

theorem identical_list_reuses_cache_witness:
  "chunks (map int [0..<51]) = [map int [0..<50], [50]]
   \<and> within_cache_window cache_after_first_run 200000 (map int [0..<50])
   \<and> within_cache_window cache_after_first_run 200000 [50]
   \<and> network_calls cache_after_first_run 200000 (queries_options (chunks (map int [0..<51])))
       = []"
proof -
  have w1: "within_cache_window cache_after_first_run 200000 (map int [0..<50])"
    and w2: "within_cache_window cache_after_first_run 200000 [50]"
    by (simp_all add: within_cache_window_def cache_after_first_run_def
        last_chunk_differs last_chunk_differs [symmetric])
  have w: "\<forall>chunk \<in> set (chunks (map int [0..<51])).
      within_cache_window cache_after_first_run 200000 chunk"
    by (simp only: chunks_51) (simp add: w1 w2)
  note inst = identical_list_reuses_cache [OF refl, of "map int [0..<51]"
      cache_after_first_run 200000]
  note calls = inst [THEN conjunct2, THEN conjunct2, THEN conjunct2, THEN conjunct2, THEN mp,
      OF w]
  from chunks_51 w1 w2 calls show ?thesis
    by (intro conjI)
qed

text \<open>
  C8. \<^verbatim>\<open>fetchDealsGG\<close> is to rethrow the error of a failed request as it is, after
  logging. Evaluated on a request that fails with status 500 and the response body
  \<^verbatim>\<open>null\<close>: the status line is logged, the read of \<^verbatim>\<open>.detail\<close> for the second line
  raises, and the caller receives that \<^verbatim>\<open>TypeError\<close> in place of the request's error.
  The request is made once and the failure is not turned into a result.
\<close>

theorem fetchDealsGG_null_body_replaces_error:
  "fetchDealsGG
     (\<lambda>path body w. (Inl (AxiosError ''Request failed with status code 500''
         (Some \<lparr>response_status = 500, response_data = JNull\<rparr>)), Suc w))
     [730, 440] (0::nat)
   = (([(''Status:'', JNum 500)],
       Inl (TypeError ''Cannot read properties of null (reading detail)'')), 1)"
  by (simp add: fetchDealsGG_def catch_block_def)

end
